theory Spec2Isabelle
  imports Main "HOL-Library.Sublist"
begin

section \<open>Strings, promises and the helpers the storage layer calls\<close>

text \<open>
  JavaScript strings are modelled as \<^typ>\<open>string\<close>. A promise is modelled by the
  outcome it settles to: resolved with a value, rejected with an error, or never
  settled (the backend never calls back).
\<close>

datatype ('e, 'a) promise = Resolved 'a | Rejected 'e | Pending

text \<open>
  Modelled from the spec: \<open>util.endsWith(str, suffix)\<close> lives in \<open>util.js\<close>, which is not
  among the sources. The spec speaks of "a file named with suffix \<open>titles.idx\<close>" and of
  "paths ending in a recognized single-file archive extension": the helper tests whether
  its second argument (\<open>sfx\<close> below, \<open>suffix\<close> in the source) is the tail end
  of \<open>str\<close>.
\<close>

definition endsWith :: "string \<Rightarrow> string \<Rightarrow> bool" where
  "endsWith str sfx =
     (length sfx \<le> length str \<and> drop (length str - length sfx) str = sfx)"

text \<open>
  \<open>String.prototype.lastIndexOf(ch)\<close>: the index of the last occurrence of the character,
  or \<open>-1\<close> when there is none.
\<close>

fun lastIndexOf :: "string \<Rightarrow> char \<Rightarrow> int" where
  "lastIndexOf [] c = - 1"
| "lastIndexOf (x # xs) c =
     (let r = lastIndexOf xs c
      in if r \<noteq> - 1 then r + 1 else if x = c then 0 else - 1)"

text \<open>
  \<open>String.prototype.substring(0, end)\<close>: the characters before index \<open>end\<close>; an \<open>end\<close>
  below zero is read as zero and one beyond the length as the length.
\<close>

definition substring0 :: "string \<Rightarrow> int \<Rightarrow> string" where
  "substring0 s end = take (nat end) s"

text \<open>
  \<open>String.prototype.substr(start, len)\<close> and \<open>substr(start)\<close> for a start index that is
  not negative, as \<open>StoragePhoneGap.get\<close> calls them.
\<close>

definition substr :: "string \<Rightarrow> nat \<Rightarrow> nat \<Rightarrow> string" where
  "substr s start len = take len (drop start s)"

definition substr_from :: "string \<Rightarrow> nat \<Rightarrow> string" where
  "substr_from s start = drop start s"

subsection \<open>The regular expression \<open>/\.zim(aa)?$/i\<close>\<close>

text \<open>
  With the \<open>i\<close> flag a pattern letter matches its lower-case and its upper-case form.
  \<open>regexpZIMFileName_at\<close> matches the pattern at the start of its argument: a dot, the
  letters z, i, m, optionally the letters a, a, and then the end of the input.
  \<open>regexpZIMFileName_test\<close> is \<open>RegExp.prototype.test\<close>: it tries every start index
  from the left.
\<close>

definition letter :: "char \<Rightarrow> char \<Rightarrow> char \<Rightarrow> bool" where
  "letter lo up c = (c = lo \<or> c = up)"

fun regexpZIMFileName_at :: "string \<Rightarrow> bool" where
  "regexpZIMFileName_at (d # z # i # m # rest) =
     (d = CHR ''.'' \<and> letter CHR ''z'' CHR ''Z'' z \<and> letter CHR ''i'' CHR ''I'' i
      \<and> letter CHR ''m'' CHR ''M'' m
      \<and> (case rest of
            [] \<Rightarrow> True
          | [a1, a2] \<Rightarrow> letter CHR ''a'' CHR ''A'' a1 \<and> letter CHR ''a'' CHR ''A'' a2
          | _ \<Rightarrow> False))"
| "regexpZIMFileName_at _ = False"

fun regexpZIMFileName_test :: "string \<Rightarrow> bool" where
  "regexpZIMFileName_test [] = regexpZIMFileName_at []"
| "regexpZIMFileName_test (c # cs) =
     (regexpZIMFileName_at (c # cs) \<or> regexpZIMFileName_test cs)"

text \<open>
  Lower-casing of the letters A to Z, every other character unchanged: the reading of
  "case-insensitive" that the naming rule is compared with.
\<close>

definition toLowerCase_char :: "char \<Rightarrow> char" where
  "toLowerCase_char c =
     (case map_of (zip ''ABCDEFGHIJKLMNOPQRSTUVWXYZ'' ''abcdefghijklmnopqrstuvwxyz'') c of
        Some l \<Rightarrow> l
      | None \<Rightarrow> c)"

definition toLowerCase :: "string \<Rightarrow> string" where
  "toLowerCase s = map toLowerCase_char s"

section \<open>StorageFirefoxOS\<close>

text \<open>
  The DeviceStorage backend. A request for a file answers with the file or with a
  \<open>DOMError\<close>. An enumeration cursor delivers one event for the \<open>enumerate\<close> call and one
  for every \<open>cursor.continue()\<close>: a file, no result (the enumeration is over), or an
  error. The list of events is what the backend will deliver, in order; when it is
  exhausted the backend stays silent.
\<close>

datatype DOMError = DOMError (error_name: string)

datatype File = File (file_name: string)

datatype cursor_event = Result File | NoResult | CursorError DOMError

record 'f DeviceStorage =
  storageName :: string
  storage_get :: "string \<Rightarrow> DOMError + 'f"
  storage_enumerate :: "string option \<Rightarrow> cursor_event list"


text \<open>
  The body of \<open>cursor.onsuccess\<close> for a cursor that has a result: the classification of
  one file, returning the accumulator \<open>directories\<close> after the pushes.
\<close>

definition onsuccess_file :: "File \<Rightarrow> string list \<Rightarrow> string list" where
  "onsuccess_file file directories =
     (if endsWith (file_name file) ''titles.idx'' then
        (let directory =
           (if lastIndexOf (file_name file) CHR ''/'' \<noteq> - 1
            then substring0 (file_name file) (lastIndexOf (file_name file) CHR ''/'' + 1)
            else ''/'')
         in directories @ [directory])
      else if regexpZIMFileName_test (file_name file) then directories @ [file_name file]
      else directories)"

text \<open>
  The cursor's event handlers, run over the events the backend delivers. After an error
  or the end of the enumeration the promise is settled and \<open>cursor.continue()\<close> is not
  called again, so later events are never requested.
\<close>

fun cursor_events :: "cursor_event list \<Rightarrow> string list \<Rightarrow> (DOMError, string list) promise" where
  "cursor_events [] directories = Pending"
| "cursor_events (CursorError error # rest) directories = Rejected error"
| "cursor_events (NoResult # rest) directories = Resolved directories"
| "cursor_events (Result file # rest) directories =
     cursor_events rest (onsuccess_file file directories)"

definition StorageFirefoxOS_scanForArchives ::
  "'f DeviceStorage \<Rightarrow> (DOMError, string list) promise" where
  "StorageFirefoxOS_scanForArchives storage =
     cursor_events (storage_enumerate storage None) []"

definition StorageFirefoxOS_enumerate ::
  "'f DeviceStorage \<Rightarrow> string \<Rightarrow> cursor_event list" where
  "StorageFirefoxOS_enumerate storage path = storage_enumerate storage None"

section \<open>StoragePhoneGap\<close>

text \<open>
  The codes of the platform's \<open>FileError\<close> object are not part of the sources; they are a
  parameter of the model. The \<open>switch\<close> compares with each constant in the order written.
\<close>

record FileError =
  QUOTA_EXCEEDED_ERR :: int
  NOT_FOUND_ERR :: int
  SECURITY_ERR :: int
  INVALID_MODIFICATION_ERR :: int
  INVALID_STATE_ERR :: int

definition errorCodeToString :: "FileError \<Rightarrow> int \<Rightarrow> string" where
  "errorCodeToString fileError code =
     (if code = QUOTA_EXCEEDED_ERR fileError then ''QUOTA_EXCEEDED_ERR''
      else if code = NOT_FOUND_ERR fileError then ''NOT_FOUND_ERR''
      else if code = SECURITY_ERR fileError then ''SECURITY_ERR''
      else if code = INVALID_MODIFICATION_ERR fileError then ''INVALID_MODIFICATION_ERR''
      else if code = INVALID_STATE_ERR fileError then ''INVALID_STATE_ERR''
      else ''Unknown Error'')"

text \<open>
  An entry of the file system: a file, or a directory together with what one
  \<open>createReader().readEntries\<close> call on it delivers, the error code of the failure
  callback or the batch of child entries of the success callback.
\<close>

datatype Entry =
    FileEntry (name: string) (fullPath: string)
  | DirectoryEntry (name: string) (fullPath: string) (readEntries: "int + Entry list")

definition isDirectory :: "Entry \<Rightarrow> bool" where
  "isDirectory entry =
     (case entry of DirectoryEntry _ _ _ \<Rightarrow> True | FileEntry _ _ \<Rightarrow> False)"

text \<open>
  The file system handed to \<open>StoragePhoneGap\<close>: its root directory, and the answer of
  \<open>root.getFile(path, options, ...)\<close>: an error code, or a file entry whose \<open>file(...)\<close>
  call in turn answers with an error code or the file.
\<close>

record 'f FileSystem =
  fs_root :: Entry
  fs_getFile :: "string \<Rightarrow> int + (int + 'f)"

datatype console = TryingToAccess string | ErrorCode int

text \<open>The path that \<open>get\<close> hands to \<open>root.getFile\<close>.\<close>

definition get_lookup_path :: "string \<Rightarrow> string" where
  "get_lookup_path path =
     (if substr path 0 7 = ''file://'' then substr_from path 7 else path)"

text \<open>\<open>StoragePhoneGap.get\<close>: the lines written to the console, and the promise.\<close>

definition StoragePhoneGap_get ::
  "FileError \<Rightarrow> 'f FileSystem \<Rightarrow> string \<Rightarrow> console list \<times> (string, 'f) promise" where
  "StoragePhoneGap_get fileError storage path =
     (case fs_getFile storage (get_lookup_path path) of
        Inl code \<Rightarrow>
          ([TryingToAccess path, ErrorCode code], Rejected (errorCodeToString fileError code))
      | Inr fileEntry \<Rightarrow>
          (case fileEntry of
             Inl code \<Rightarrow>
               ([TryingToAccess path, ErrorCode code],
                Rejected (errorCodeToString fileError code))
           | Inr file \<Rightarrow> ([TryingToAccess path], Resolved file)))"

text \<open>
  The \<open>for\<close> loop of \<open>dirReaderSuccess\<close> over the entries of the directory \<open>dir\<close>. The
  stack is an array: \<open>push\<close> appends at the end and the top is the last element.
\<close>

fun entries_loop ::
  "Entry \<Rightarrow> Entry list \<Rightarrow> Entry list \<times> string list \<Rightarrow> Entry list \<times> string list" where
  "entries_loop dir [] (stack, directories) = (stack, directories)"
| "entries_loop dir (entry # entries) (stack, directories) =
     (if isDirectory entry then entries_loop dir entries (stack @ [entry], directories)
      else if endsWith (name entry) ''titles.idx'' then
        (let path = fullPath dir;
             path = (if length path = 0 \<or> last path \<noteq> CHR ''/'' then path @ ''/'' else path)
         in entries_loop dir entries (stack, directories @ [path]))
      else if endsWith (name entry) ''.zim'' then
        entries_loop dir entries (stack, directories @ [fullPath dir @ ''/'' @ name entry])
      else entries_loop dir entries (stack, directories))"

text \<open>
  \<open>dirReaderSuccess\<close> up to its call of \<open>iteration\<close>: the directory on top of the stack is
  read and popped, then the entries are looped over.
\<close>

definition dirReaderSuccess ::
  "Entry list \<Rightarrow> Entry list \<times> string list \<Rightarrow> Entry list \<times> string list" where
  "dirReaderSuccess entries state =
     (case state of (stack, directories) \<Rightarrow>
        (let dir = last stack; stack = butlast stack
         in entries_loop dir entries (stack, directories)))"

text \<open>The measure under which the traversal ends: the number of entries below the stack.\<close>

fun weight :: "Entry \<Rightarrow> nat" where
  "weight (FileEntry n p) = 1"
| "weight (DirectoryEntry n p (Inl code)) = 1"
| "weight (DirectoryEntry n p (Inr entries)) = Suc (sum_list (map weight entries))"

lemma entries_loop_stack:
  "fst (entries_loop dir entries (stack, directories)) = stack @ filter isDirectory entries"
  by (induction entries arbitrary: stack directories) (auto simp: Let_def)

lemma weight_filter: "sum_list (map weight (filter P es)) \<le> sum_list (map weight es)"
  by (induction es) auto

lemma dirReaderSuccess_stack:
  "fst (dirReaderSuccess entries (stack, directories))
   = butlast stack @ filter isDirectory entries"
  by (simp add: dirReaderSuccess_def Let_def entries_loop_stack del: entries_loop.simps)

lemma dirReaderSuccess_weight:
  assumes "stack \<noteq> []" and "last stack = DirectoryEntry n p (Inr entries)"
  shows "sum_list (map weight (fst (dirReaderSuccess entries (stack, directories))))
         < sum_list (map weight stack)"
proof -
  have st: "fst (dirReaderSuccess entries (stack, directories))
            = butlast stack @ filter isDirectory entries"
    by (rule dirReaderSuccess_stack)
  have "map weight stack = map weight (butlast stack) @ [weight (last stack)]"
    using assms(1) by (metis append_butlast_last_id list.simps(8,9) map_append)
  then have "sum_list (map weight stack) =
      sum_list (map weight (butlast stack)) + Suc (sum_list (map weight entries))"
    using assms(2) by simp
  then show ?thesis
    using st weight_filter[of isDirectory entries] by simp
qed

text \<open>
  \<open>iteration\<close>, with the two callbacks of \<open>readEntries\<close> inlined: \<open>dirReaderFail\<close> rejects
  with the translated code, \<open>dirReaderSuccess\<close> updates stack and accumulator and calls
  \<open>iteration\<close> again. Only directories are ever pushed; were the top of the stack a file,
  \<open>createReader\<close> would not exist, the call would throw and the promise never settle.
\<close>

function iteration ::
  "FileError \<Rightarrow> Entry list \<Rightarrow> string list \<Rightarrow> (string, string list) promise" where
  "iteration fileError stack directories =
     (if length stack = 0 then Resolved directories
      else (case last stack of
              FileEntry n p \<Rightarrow> Pending
            | DirectoryEntry n p listing \<Rightarrow>
                (case listing of
                   Inl code \<Rightarrow> Rejected (errorCodeToString fileError code)
                 | Inr entries \<Rightarrow>
                     (case dirReaderSuccess entries (stack, directories) of
                        (stack', directories') \<Rightarrow> iteration fileError stack' directories'))))"
  by pat_completeness auto
termination
  by (relation "measure (\<lambda>(fe, stack, directories). sum_list (map weight stack))")
     (auto simp: case_prod_unfold dirReaderSuccess_weight)

definition StoragePhoneGap_scanForArchives ::
  "FileError \<Rightarrow> 'f FileSystem \<Rightarrow> (string, string list) promise" where
  "StoragePhoneGap_scanForArchives fileError storage =
     iteration fileError [fs_root storage] []"

section \<open>The backend module: archive loading and the scan over all storages\<close>

text \<open>
  The archive objects are opaque here: a \<open>ZIMArchive\<close> built from storage and path, or a
  \<open>LocalArchive\<close> together with the initialisation it was given.
\<close>

datatype ('s, 'fs) LocalArchive_init =
    initializeFromDeviceStorage 's string
  | initializeFromArchiveFiles 'fs

datatype ('s, 'fs) Archive =
    ZIMArchive 's string
  | LocalArchive "('s, 'fs) LocalArchive_init"

definition loadArchiveFromDeviceStorage :: "'s \<Rightarrow> string \<Rightarrow> ('s, 'fs) Archive" where
  "loadArchiveFromDeviceStorage storage path =
     (if endsWith path ''.zim'' then ZIMArchive storage path
      else LocalArchive (initializeFromDeviceStorage storage path))"

definition loadArchiveFromFiles :: "'fs \<Rightarrow> ('s, 'fs) Archive" where
  "loadArchiveFromFiles files = LocalArchive (initializeFromArchiveFiles files)"

text \<open>
  What the caller can observe of \<open>scanForArchives\<close>: the \<open>alert\<close> (with the error it
  shows) and the calls of \<open>callbackFunction\<close>, with the contents of \<open>directories\<close> at the
  moment of the call or with \<open>null\<close>. The array handed over is the one that later merges
  still append to; the effect records what it holds when \<open>callbackFunction\<close> is called.
\<close>

datatype 'e effect = Alert 'e | CallbackFunction "string list option"

text \<open>
  The two storages make their promises with different libraries:
  \<open>StorageFirefoxOS.scanForArchives\<close> with \<open>jQuery.Deferred()\<close>,
  \<open>StoragePhoneGap.scanForArchives\<close> with \<open>q.defer()\<close>; \<open>then\<close> of either library
  returns a promise of the same library. \<open>has_promise_method\<close> is the test
  \<open>jQuery.isFunction(p.promise)\<close> by which \<open>jQuery.when\<close> tells a promise it waits on
  from a plain value: a promise of jQuery has the method, a promise of Q has not.
\<close>

datatype library = JQuery | Q

fun has_promise_method :: "library \<Rightarrow> bool" where
  "has_promise_method JQuery = True"
| "has_promise_method Q = False"

text \<open>
  A storage handed to \<open>scanForArchives\<close> is of either kind. Its scan promise is given by
  the library that made it and the outcome it settles to; the error is the cursor's
  \<open>DOMError\<close> on the left, the translated string of \<open>StoragePhoneGap\<close> on the right.
\<close>

datatype 'f storage = StorageFirefoxOS "'f DeviceStorage" | StoragePhoneGap "'f FileSystem"

definition storage_scanForArchives ::
  "FileError \<Rightarrow> 'f storage \<Rightarrow> library \<times> (DOMError + string, string list) promise" where
  "storage_scanForArchives fileError storage =
     (case storage of
        StorageFirefoxOS deviceStorage \<Rightarrow>
          (JQuery, map_promise Inl (\<lambda>dirs. dirs) (StorageFirefoxOS_scanForArchives deviceStorage))
      | StoragePhoneGap fileSystem \<Rightarrow>
          (Q, map_promise Inr (\<lambda>dirs. dirs)
                (StoragePhoneGap_scanForArchives fileError fileSystem)))"

text \<open>
  The state of one \<open>scanForArchives\<close> call: the array \<open>directories\<close>, the count of
  promises \<open>jQuery.when\<close> still waits for, whether the promise of \<open>jQuery.when\<close> has
  settled, and the effects so far.
\<close>

record 'e scan_state =
  st_directories :: "string list"
  st_remaining :: int
  st_settled :: bool
  st_effects :: "'e effect list"

text \<open>
  Modelled from the spec: \<open>jQuery.when\<close> and \<open>then\<close> are library code outside the
  sources (the test configuration names jQuery 2.0.3). For the promises \<open>jQuery.when\<close>
  waits on, section 4.4 applies: the aggregate resolves only once every one of them has
  resolved, and rejects with the error of the first that rejects; a promise settles
  once, so handlers run at most once. An argument without a \<open>promise\<close> method is not
  waited on: \<open>jQuery.when\<close> counts it as resolved from the start and attaches no handler
  to it, so neither its resolution nor its rejection reaches the handlers of
  \<open>scanForArchives\<close>. Its own \<open>then\<close> callback still merges its list into \<open>directories\<close>
  when it resolves.

  \<open>settle\<close> is one turn of the event loop in which the scan promise \<open>p\<close> of one storage
  settles. Resolved: the \<open>then\<close> callback merges the storage's list into \<open>directories\<close>;
  if \<open>jQuery.when\<close> waits on the promise it counts one promise less, and when none
  remains its success handler calls \<open>callbackFunction(directories)\<close>. Rejected: if
  \<open>jQuery.when\<close> waits on the promise, its failure handler shows the alert and calls
  \<open>callbackFunction(null)\<close>.
\<close>

definition settle ::
  "library \<times> ('e, string list) promise \<Rightarrow> 'e scan_state \<Rightarrow> 'e scan_state" where
  "settle p st =
     (case snd p of
        Resolved dirs \<Rightarrow>
          (let st = st\<lparr>st_directories := st_directories st @ dirs\<rparr>
           in if has_promise_method (fst p)
              then (let st = st\<lparr>st_remaining := st_remaining st - 1\<rparr>
                    in if st_remaining st = 0 \<and> \<not> st_settled st
                       then st\<lparr>st_settled := True,
                               st_effects := st_effects st
                                 @ [CallbackFunction (Some (st_directories st))]\<rparr>
                       else st)
              else st)
      | Rejected error \<Rightarrow>
          (if has_promise_method (fst p) \<and> \<not> st_settled st
           then st\<lparr>st_settled := True,
                   st_effects := st_effects st @ [Alert error, CallbackFunction None]\<rparr>
           else st)
      | Pending \<Rightarrow> st)"

text \<open>
  The turns of the event loop: \<open>arrivals\<close> lists the indices of the promises in the order
  in which they settle. An index outside the list names no promise and does nothing.
\<close>

fun settle_all ::
  "(library \<times> ('e, string list) promise) list \<Rightarrow> nat list \<Rightarrow> 'e scan_state
   \<Rightarrow> 'e scan_state" where
  "settle_all promises [] st = st"
| "settle_all promises (i # arrivals) st =
     settle_all promises arrivals
       (if i < length promises then settle (promises ! i) st else st)"

text \<open>
  The state when \<open>scanForArchives\<close> returns: no promise has settled yet, \<open>directories\<close>
  is empty, and \<open>jQuery.when\<close> waits for the promises that have a \<open>promise\<close> method. If
  there is none, it resolves at once and \<open>callbackFunction\<close> is called with the still
  empty \<open>directories\<close>.
\<close>

definition when_start ::
  "(library \<times> ('e, string list) promise) list \<Rightarrow> 'e scan_state" where
  "when_start promises =
     (let remaining = int (length (filter (\<lambda>p. has_promise_method (fst p)) promises))
      in if remaining = 0
         then \<lparr>st_directories = [], st_remaining = 0, st_settled = True,
               st_effects = [CallbackFunction (Some [])]\<rparr>
         else \<lparr>st_directories = [], st_remaining = remaining, st_settled = False,
               st_effects = []\<rparr>)"

text \<open>
  The part of \<open>scanForArchives\<close> from \<open>jQuery.when\<close> on, for given promises: the list of
  effects in the order they happen.
\<close>

definition when_promises ::
  "(library \<times> ('e, string list) promise) list \<Rightarrow> nat list \<Rightarrow> 'e effect list" where
  "when_promises promises arrivals =
     st_effects (settle_all promises arrivals (when_start promises))"

text \<open>
  \<open>scanForArchives(storages, callbackFunction)\<close>: \<open>jQuery.map\<close> takes the scan promise of
  every storage, and \<open>arrivals\<close> is the order in which these settle.
\<close>

definition scanForArchives ::
  "FileError \<Rightarrow> 'f storage list \<Rightarrow> nat list \<Rightarrow> (DOMError + string) effect list" where
  "scanForArchives fileError storages arrivals =
     when_promises (map (storage_scanForArchives fileError) storages) arrivals"

section \<open>Auxiliary notions and concrete inputs for the statements\<close>

text \<open>The codes of the HTML5 \<open>FileError\<close> interface.\<close>

definition html5_FileError :: FileError where
  "html5_FileError = \<lparr>QUOTA_EXCEEDED_ERR = 10, NOT_FOUND_ERR = 1, SECURITY_ERR = 2,
     INVALID_MODIFICATION_ERR = 9, INVALID_STATE_ERR = 7\<rparr>"

text \<open>A file system whose root holds the single file \<open>x\<close>.\<close>

definition only_x :: "unit FileSystem" where
  "only_x = \<lparr>fs_root = DirectoryEntry [] ''/'' (Inr [FileEntry ''x'' ''/x'']),
     fs_getFile = (\<lambda>path. if path = ''x'' then Inr (Inr ()) else Inl 1)\<rparr>"

text \<open>A storage whose enumeration delivers two marker files and then ends.\<close>

definition two_markers :: "unit DeviceStorage" where
  "two_markers = \<lparr>storageName = ''sdcard'',
     storage_get = (\<lambda>path. Inl (DOMError ''NotFoundError'')),
     storage_enumerate =
       (\<lambda>path. [Result (File ''titles.idx''), Result (File ''subdir/titles.idx''), NoResult])\<rparr>"

text \<open>
  Whether some \<open>readEntries\<close> call in the tree below an entry fails, and the error codes
  of the calls that do.
\<close>

fun listing_fails :: "Entry \<Rightarrow> bool" where
  "listing_fails (FileEntry n p) = False"
| "listing_fails (DirectoryEntry n p (Inl code)) = True"
| "listing_fails (DirectoryEntry n p (Inr entries)) = list_ex listing_fails entries"

fun listing_errors :: "Entry \<Rightarrow> int list" where
  "listing_errors (FileEntry n p) = []"
| "listing_errors (DirectoryEntry n p (Inl code)) = [code]"
| "listing_errors (DirectoryEntry n p (Inr entries)) = concat (map listing_errors entries)"

text \<open>
  A root with a marker file and two subdirectories: \<open>b\<close> holds an archive file, the
  listing of \<open>a\<close> fails with the code of \<open>NOT_FOUND_ERR\<close>. The traversal lists the root,
  then \<open>b\<close>, and has accumulated two entries when the third listing, of \<open>a\<close>, fails.
  Looking up the file \<open>locked\<close> finds an entry whose \<open>file\<close> call fails with the code of
  \<open>SECURITY_ERR\<close>; every other lookup fails with the code of \<open>NOT_FOUND_ERR\<close>.
\<close>

definition third_listing_fails :: "unit FileSystem" where
  "third_listing_fails =
     \<lparr>fs_root = DirectoryEntry [] ''/sdcard''
        (Inr [FileEntry ''titles.idx'' ''/sdcard/titles.idx'',
              DirectoryEntry ''a'' ''/sdcard/a'' (Inl 1),
              DirectoryEntry ''b'' ''/sdcard/b'' (Inr [FileEntry ''w.zim'' ''/sdcard/b/w.zim''])]),
      fs_getFile = (\<lambda>path. if path = ''locked'' then Inr (Inl 2) else Inl 1)\<rparr>"


text \<open>
  A device storage whose requests and whose enumeration fail with an error named
  \<open>TypeMismatchError\<close>.
\<close>

definition mismatch_storage :: "unit DeviceStorage" where
  "mismatch_storage = \<lparr>storageName = ''sdcard'',
     storage_get = (\<lambda>path. Inl (DOMError ''TypeMismatchError'')),
     storage_enumerate = (\<lambda>path. [CursorError (DOMError ''TypeMismatchError'')])\<rparr>"

text \<open>
  For stating what the coordinator delivers: the list a resolved scan carries, whether a
  scan resolved, and the error of the first promise among the arrivals that rejected
  and that \<open>jQuery.when\<close> waits on.
\<close>

fun resolved_value :: "('e, string list) promise \<Rightarrow> string list" where
  "resolved_value (Resolved dirs) = dirs"
| "resolved_value (Rejected error) = []"
| "resolved_value Pending = []"

fun is_resolved :: "('e, 'a) promise \<Rightarrow> bool" where
  "is_resolved (Resolved v) = True"
| "is_resolved (Rejected error) = False"
| "is_resolved Pending = False"

fun first_rejection ::
  "(library \<times> ('e, string list) promise) list \<Rightarrow> nat list \<Rightarrow> 'e option" where
  "first_rejection promises [] = None"
| "first_rejection promises (i # arrivals) =
     (if i < length promises \<and> has_promise_method (fst (promises ! i))
      then (case snd (promises ! i) of
              Rejected error \<Rightarrow> Some error
            | _ \<Rightarrow> first_rejection promises arrivals)
      else first_rejection promises arrivals)"

text \<open>
  The arrivals that are resolved promises \<open>jQuery.when\<close> waits on.
\<close>

definition waited_resolved ::
  "(library \<times> ('e, string list) promise) list \<Rightarrow> nat list \<Rightarrow> nat list" where
  "waited_resolved promises arrivals =
     filter (\<lambda>i. i < length promises \<and> has_promise_method (fst (promises ! i))
                \<and> is_resolved (snd (promises ! i))) arrivals"

fun is_StorageFirefoxOS :: "'f storage \<Rightarrow> bool" where
  "is_StorageFirefoxOS (StorageFirefoxOS deviceStorage) = True"
| "is_StorageFirefoxOS (StoragePhoneGap fileSystem) = False"

text \<open>
  Two device storages whose scans resolve with \<open>["/a/"]\<close> and with \<open>["/b/"]\<close>.
\<close>

definition slash_a :: "unit DeviceStorage" where
  "slash_a = \<lparr>storageName = ''a'',
     storage_get = (\<lambda>path. Inl (DOMError ''NotFoundError'')),
     storage_enumerate = (\<lambda>path. [Result (File ''/a/titles.idx''), NoResult])\<rparr>"

definition slash_b :: "unit DeviceStorage" where
  "slash_b = \<lparr>storageName = ''b'',
     storage_get = (\<lambda>path. Inl (DOMError ''NotFoundError'')),
     storage_enumerate = (\<lambda>path. [Result (File ''/b/titles.idx''), NoResult])\<rparr>"

text \<open>A device storage that holds the single file \<open>WIKI.ZIM\<close>.\<close>

definition upper_case_cursor :: "unit DeviceStorage" where
  "upper_case_cursor = \<lparr>storageName = ''sdcard'',
     storage_get = (\<lambda>path. Inl (DOMError ''NotFoundError'')),
     storage_enumerate = (\<lambda>path. [Result (File ''WIKI.ZIM''), NoResult])\<rparr>"




text \<open>
  The same five file names on both kinds of storage: a marker, an archive in lower case,
  one in upper case, the first part of a split archive, and another file.
\<close>

definition five_files_tree :: "unit FileSystem" where
  "five_files_tree =
     \<lparr>fs_root = DirectoryEntry [] ''/sdcard''
        (Inr [FileEntry ''titles.idx'' ''/sdcard/titles.idx'',
              FileEntry ''wiki.zim'' ''/sdcard/wiki.zim'',
              FileEntry ''WIKI.ZIM'' ''/sdcard/WIKI.ZIM'',
              FileEntry ''wiki.zimaa'' ''/sdcard/wiki.zimaa'',
              FileEntry ''notes.txt'' ''/sdcard/notes.txt'']),
      fs_getFile = (\<lambda>path. Inl 1)\<rparr>"

definition five_files_cursor :: "unit DeviceStorage" where
  "five_files_cursor = \<lparr>storageName = ''sdcard'',
     storage_get = (\<lambda>path. Inl (DOMError ''NotFoundError'')),
     storage_enumerate =
       (\<lambda>path. [Result (File ''titles.idx''), Result (File ''wiki.zim''),
                 Result (File ''WIKI.ZIM''), Result (File ''wiki.zimaa''),
                 Result (File ''notes.txt''), NoResult])\<rparr>"


section \<open>Properties\<close>

subsection \<open>Strings\<close>

lemma endsWith_suffix: "endsWith str sfx = suffix sfx str"
proof
  assume "endsWith str sfx"
  then have "str = take (length str - length sfx) str @ sfx"
    by (metis append_take_drop_id endsWith_def)
  then show "suffix sfx str" by (metis suffixI)
next
  assume "suffix sfx str"
  then obtain zs where "str = zs @ sfx" by (auto simp: suffix_def)
  then show "endsWith str sfx" by (simp add: endsWith_def)
qed


lemma lastIndexOf_ge: "- 1 \<le> lastIndexOf s c"
  by (induction s) (auto simp: Let_def)

lemma lastIndexOf_in: "c \<in> set s \<Longrightarrow> lastIndexOf s c \<noteq> - 1"
proof (induction s)
  case Nil
  then show ?case by simp
next
  case (Cons x xs)
  have "- 1 \<le> lastIndexOf xs c" by (rule lastIndexOf_ge)
  then have "lastIndexOf xs c + 1 \<noteq> - 1" by arith
  with Cons show ?case by (auto simp: Let_def)
qed


subsection \<open>The archive-source resolver\<close>

text \<open>
  What the resolver does: a dispatch on the exact suffix. \<open>loadArchiveFromDeviceStorage\<close>
  returns a \<open>ZIMArchive\<close> exactly when the path ends in \<open>.zim\<close> (the test is the exact,
  case-sensitive suffix) and a \<open>LocalArchive\<close> initialised from storage and path for every
  other path; \<open>loadArchiveFromFiles\<close> always returns a \<open>LocalArchive\<close> initialised from
  the file collection.
\<close>

lemma loadArchive_suffix_dispatch:
  "((\<exists>s p. (loadArchiveFromDeviceStorage storage path :: ('s, 'fs) Archive) = ZIMArchive s p)
      = suffix ''.zim'' path)
   \<and> (loadArchiveFromDeviceStorage storage path :: ('s, 'fs) Archive) =
       (if suffix ''.zim'' path then ZIMArchive storage path
        else LocalArchive (initializeFromDeviceStorage storage path))
   \<and> (loadArchiveFromFiles files :: ('s, 'fs) Archive)
       = LocalArchive (initializeFromArchiveFiles files)"
  by (simp add: loadArchiveFromDeviceStorage_def loadArchiveFromFiles_def endsWith_suffix)

text \<open>
  C8: the resolver does not recognise every path that the scan emits as an archive file.
  The cursor scan emits \<open>WIKI.ZIM\<close> as an archive-file entry, and
  \<open>loadArchiveFromDeviceStorage\<close> returns a \<open>LocalArchive\<close> for that path, where it
  returns a \<open>ZIMArchive\<close> for \<open>wiki.zim\<close>.
\<close>

theorem resolver_misroutes_scanned_archive:
  "StorageFirefoxOS_scanForArchives upper_case_cursor = Resolved [''WIKI.ZIM'']
   \<and> regexpZIMFileName_test ''WIKI.ZIM''
   \<and> (loadArchiveFromDeviceStorage upper_case_cursor ''WIKI.ZIM''
        :: (unit DeviceStorage, unit) Archive)
       = LocalArchive (initializeFromDeviceStorage upper_case_cursor ''WIKI.ZIM'')
   \<and> (loadArchiveFromDeviceStorage upper_case_cursor ''wiki.zim''
        :: (unit DeviceStorage, unit) Archive)
       = ZIMArchive upper_case_cursor ''wiki.zim''"
  by (simp add: StorageFirefoxOS_scanForArchives_def upper_case_cursor_def onsuccess_file_def
      letter_def endsWith_def loadArchiveFromDeviceStorage_def)

subsection \<open>\<open>StoragePhoneGap.get\<close> and the \<open>file://\<close> prefix\<close>

lemma get_lookup_path_strip: "get_lookup_path (''file://'' @ p) = p"
  by (simp add: get_lookup_path_def substr_def substr_from_def)

lemma get_lookup_path_id: "\<not> prefix ''file://'' p \<Longrightarrow> get_lookup_path p = p"
proof -
  assume np: "\<not> prefix ''file://'' p"
  have "take 7 p \<noteq> ''file://''"
  proof
    assume "take 7 p = ''file://''"
    then have "p = ''file://'' @ drop 7 p" by (metis append_take_drop_id)
    then show False using np by (metis prefixI)
  qed
  then show ?thesis by (simp add: get_lookup_path_def substr_def)
qed

text \<open>
  C10, as stated, fails for a path that itself begins with \<open>file://\<close>: only one prefix is
  stripped, so \<open>get("file://" + p)\<close> looks up \<open>file://x\<close> where \<open>get(p)\<close> looks up \<open>x\<close>, and
  on a file system that holds only \<open>x\<close> the first is rejected and the second resolves.
\<close>

theorem get_double_prefix_counterexample:
  "get_lookup_path (''file://'' @ ''file://x'') \<noteq> get_lookup_path ''file://x''
   \<and> snd (StoragePhoneGap_get html5_FileError only_x (''file://'' @ ''file://x''))
       \<noteq> snd (StoragePhoneGap_get html5_FileError only_x ''file://x'')
   \<and> snd (StoragePhoneGap_get html5_FileError only_x (''file://'' @ ''file://x''))
       = Rejected ''NOT_FOUND_ERR''
   \<and> snd (StoragePhoneGap_get html5_FileError only_x ''file://x'') = Resolved ()"
  by (simp add: StoragePhoneGap_get_def only_x_def get_lookup_path_def substr_def
      substr_from_def errorCodeToString_def html5_FileError_def)

text \<open>
  C10, amended: \<open>get("file://" + p)\<close> always looks up \<open>p\<close>: exactly one leading \<open>file://\<close>
  is stripped. For every path \<open>p\<close> that does not itself begin with \<open>file://\<close>, \<open>get(p)\<close>
  looks up \<open>p\<close> unchanged, and \<open>get("file://" + p)\<close> performs the same lookup and settles
  the promise in the same way as \<open>get(p)\<close>.
\<close>

theorem get_strips_one_prefix:
  "get_lookup_path (''file://'' @ p) = p
   \<and> (\<not> prefix ''file://'' p \<longrightarrow>
        get_lookup_path p = p
        \<and> get_lookup_path (''file://'' @ p) = get_lookup_path p
        \<and> snd (StoragePhoneGap_get fileError storage (''file://'' @ p))
            = snd (StoragePhoneGap_get fileError storage p))"
proof -
  have strip: "get_lookup_path (''file://'' @ p) = p"
    by (rule get_lookup_path_strip)
  have same: "snd (StoragePhoneGap_get fileError storage (''file://'' @ p))
      = (case fs_getFile storage p of
           Inl code \<Rightarrow> Rejected (errorCodeToString fileError code)
         | Inr fileEntry \<Rightarrow>
             (case fileEntry of
                Inl code \<Rightarrow> Rejected (errorCodeToString fileError code)
              | Inr file \<Rightarrow> Resolved file))"
    unfolding StoragePhoneGap_get_def strip by (simp split: sum.splits)
  show ?thesis
  proof (intro conjI impI)
    show "get_lookup_path (''file://'' @ p) = p" by (rule strip)
  next
    assume np: "\<not> prefix ''file://'' p"
    then show id: "get_lookup_path p = p" by (rule get_lookup_path_id)
    then show "get_lookup_path (''file://'' @ p) = get_lookup_path p"
      using strip by simp
    show "snd (StoragePhoneGap_get fileError storage (''file://'' @ p))
            = snd (StoragePhoneGap_get fileError storage p)"
      unfolding same unfolding StoragePhoneGap_get_def id by (simp split: sum.splits)
  qed
qed

theorem get_strips_one_prefix_witness:
  "\<not> prefix ''file://'' ''x''
   \<and> get_lookup_path ''file://x'' = ''x''
   \<and> snd (StoragePhoneGap_get html5_FileError only_x ''file://x'') = Resolved ()
   \<and> snd (StoragePhoneGap_get html5_FileError only_x ''x'') = Resolved ()"
  using get_strips_one_prefix [of "''x''" html5_FileError only_x]
  by (simp add: StoragePhoneGap_get_def only_x_def get_lookup_path_def substr_def)

subsection \<open>\<open>StorageFirefoxOS.enumerate\<close>\<close>

text \<open>
  C9: \<open>StorageFirefoxOS.enumerate\<close> ignores its path argument. For all paths \<open>p1\<close> and
  \<open>p2\<close> the underlying request is the same, the enumeration of the whole storage with
  no path, so the cursor returned does not depend on the path.
\<close>

theorem enumerate_ignores_path:
  "StorageFirefoxOS_enumerate storage p1 = StorageFirefoxOS_enumerate storage p2
   \<and> StorageFirefoxOS_enumerate storage p1 = storage_enumerate storage None"
  by (simp add: StorageFirefoxOS_enumerate_def)

subsection \<open>The directory emitted for a \<open>titles.idx\<close> marker\<close>








subsection \<open>Errors discard the accumulated entries\<close>

declare iteration.simps [simp del]

lemma listing_fails_isDirectory: "listing_fails e \<Longrightarrow> isDirectory e"
  by (cases e) (auto simp: isDirectory_def)

lemma iteration_empty: "iteration fe [] directories = Resolved directories"
  by (subst iteration.simps) simp

lemma iteration_fail:
  "stack \<noteq> [] \<Longrightarrow> last stack = DirectoryEntry n p (Inl code) \<Longrightarrow>
   iteration fe stack directories = Rejected (errorCodeToString fe code)"
  by (subst iteration.simps) simp

lemma iteration_success:
  "stack \<noteq> [] \<Longrightarrow> last stack = DirectoryEntry n p (Inr entries) \<Longrightarrow>
   iteration fe stack directories =
     iteration fe (fst (dirReaderSuccess entries (stack, directories)))
       (snd (dirReaderSuccess entries (stack, directories)))"
  by (subst iteration.simps) (simp add: case_prod_unfold)

lemma iteration_rejects:
  assumes "\<forall>d\<in>set stack. isDirectory d" and "\<exists>d\<in>set stack. listing_fails d"
  shows "\<exists>code\<in>set (concat (map listing_errors stack)).
           iteration fe stack directories = Rejected (errorCodeToString fe code)"
  using assms
proof (induction fe stack directories rule: iteration.induct)
  case (1 fe stack directories)
  from "1.prems"(2) have ne: "stack \<noteq> []" by auto
  then have split: "stack = butlast stack @ [last stack]" by simp
  have "isDirectory (last stack)" using ne "1.prems"(1) by simp
  then obtain n p listing where top: "last stack = DirectoryEntry n p listing"
    by (cases "last stack") (auto simp: isDirectory_def)
  show ?case
  proof (cases listing)
    case (Inl code)
    have "iteration fe stack directories = Rejected (errorCodeToString fe code)"
      using ne top unfolding Inl by (rule iteration_fail)
    moreover have "code \<in> set (listing_errors (last stack))"
      using top Inl by simp
    then have "code \<in> set (concat (map listing_errors stack))"
      using ne by auto
    ultimately show ?thesis by blast
  next
    case (Inr entries)
    define stack' where "stack' = fst (dirReaderSuccess entries (stack, directories))"
    define directories' where "directories' = snd (dirReaderSuccess entries (stack, directories))"
    have st: "stack' = butlast stack @ filter isDirectory entries"
      unfolding stack'_def by (rule dirReaderSuccess_stack)
    have step: "iteration fe stack directories = iteration fe stack' directories'"
      unfolding stack'_def directories'_def using ne top unfolding Inr
      by (rule iteration_success)
    have dirs: "\<forall>d\<in>set stack'. isDirectory d"
      using "1.prems"(1) st by (auto dest: in_set_butlastD)
    obtain d where d: "d \<in> set stack" "listing_fails d" using "1.prems"(2) by blast
    have fails: "\<exists>d\<in>set stack'. listing_fails d"
    proof (cases "d = last stack")
      case True
      then have "list_ex listing_fails entries" using d(2) top Inr by simp
      then obtain e where "e \<in> set entries" "listing_fails e" by (auto simp: list_ex_iff)
      then show ?thesis using st listing_fails_isDirectory by auto
    next
      case False
      then have "d \<in> set (butlast stack)"
        using d(1) split by (metis Un_iff empty_iff insert_iff list.simps(15) set_append empty_set)
      then show ?thesis using d(2) st by auto
    qed
    have "\<exists>code\<in>set (concat (map listing_errors stack')).
            iteration fe stack' directories' = Rejected (errorCodeToString fe code)"
      using ne top Inr dirs fails
      by (intro "1.IH"[of n p listing entries stack' directories'])
         (simp_all add: stack'_def directories'_def)
    then obtain code where code: "code \<in> set (concat (map listing_errors stack'))"
      and rej: "iteration fe stack' directories' = Rejected (errorCodeToString fe code)"
      by blast
    have "set (concat (map listing_errors (filter isDirectory entries)))
          \<subseteq> set (listing_errors (last stack))"
      using top Inr by auto
    then have "set (concat (map listing_errors stack'))
          \<subseteq> set (concat (map listing_errors (butlast stack))) \<union> set (listing_errors (last stack))"
      unfolding st by auto
    also have "\<dots> = set (concat (map listing_errors stack))"
      using arg_cong[OF split, of "\<lambda>s. set (concat (map listing_errors s))"] by simp
    finally have "code \<in> set (concat (map listing_errors stack))" using code by blast
    then show ?thesis using rej step by auto
  qed
qed




text \<open>
  In that example the traversal has accumulated two entries when the third listing fails.
\<close>

lemma third_listing_trace:
  "iteration html5_FileError [fs_root third_listing_fails] []
   = iteration html5_FileError [DirectoryEntry ''a'' ''/sdcard/a'' (Inl 1)]
         [''/sdcard/'', ''/sdcard/b/w.zim'']"
  by (simp add: third_listing_fails_def iteration_success dirReaderSuccess_def isDirectory_def
      endsWith_def)

subsection \<open>The errors a storage surfaces\<close>







lemma third_listing_scan:
  "StoragePhoneGap_scanForArchives html5_FileError third_listing_fails
   = Rejected ''NOT_FOUND_ERR''"
  unfolding StoragePhoneGap_scanForArchives_def third_listing_trace
  by (simp add: iteration_fail errorCodeToString_def html5_FileError_def)


subsection \<open>The classification of archive files\<close>

lemma toLowerCase_char_z: "(toLowerCase_char c = CHR ''z'') = letter CHR ''z'' CHR ''Z'' c"
  by (simp add: toLowerCase_char_def letter_def)

lemma toLowerCase_char_i: "(toLowerCase_char c = CHR ''i'') = letter CHR ''i'' CHR ''I'' c"
  by (simp add: toLowerCase_char_def letter_def)

lemma toLowerCase_char_m: "(toLowerCase_char c = CHR ''m'') = letter CHR ''m'' CHR ''M'' c"
  by (simp add: toLowerCase_char_def letter_def)

lemma toLowerCase_char_a: "(toLowerCase_char c = CHR ''a'') = letter CHR ''a'' CHR ''A'' c"
  by (simp add: toLowerCase_char_def letter_def)

lemma toLowerCase_char_dot: "(toLowerCase_char c = CHR ''.'') = (c = CHR ''.'')"
  by (simp add: toLowerCase_char_def)

lemmas toLowerCase_char_pattern =
  toLowerCase_char_z toLowerCase_char_i toLowerCase_char_m toLowerCase_char_a
  toLowerCase_char_dot

lemma regexpZIMFileName_at_lower:
  "regexpZIMFileName_at x = (toLowerCase x = ''.zim'' \<or> toLowerCase x = ''.zimaa'')"
proof (cases x rule: regexpZIMFileName_at.cases)
  case (1 d z i m rest)
  show ?thesis
  proof (cases rest)
    case Nil
    then show ?thesis using 1 by (simp add: toLowerCase_def toLowerCase_char_pattern)
  next
    case (Cons a1 r1)
    show ?thesis
    proof (cases r1)
      case Nil
      then show ?thesis using 1 Cons by (simp add: toLowerCase_def)
    next
      case (Cons a2 r2)
      then show ?thesis using 1 \<open>rest = a1 # r1\<close>
        by (cases r2) (simp_all add: toLowerCase_def toLowerCase_char_pattern)
    qed
  qed
qed (simp_all add: toLowerCase_def)

lemma regexpZIMFileName_test_suffix:
  "regexpZIMFileName_test s = (\<exists>x. suffix x s \<and> regexpZIMFileName_at x)"
  by (induction s) (auto simp: suffix_Cons)

lemma suffix_map_iff:
  "suffix t (map f s) = (\<exists>x. suffix x s \<and> map f x = t)"
proof
  assume "suffix t (map f s)"
  then obtain zs where "map f s = zs @ t" by (auto simp: suffix_def)
  then obtain p x where "s = p @ x" "map f x = t" by (auto simp: map_eq_append_conv)
  then show "\<exists>x. suffix x s \<and> map f x = t" by (auto simp: suffix_def)
next
  assume "\<exists>x. suffix x s \<and> map f x = t"
  then show "suffix t (map f s)" by (auto simp: suffix_def)
qed

text \<open>
  The regular expression of the cursor scan accepts exactly the names whose lower-cased
  form ends in \<open>.zim\<close> or \<open>.zimaa\<close>.
\<close>

lemma regexpZIMFileName_test_lower:
  "regexpZIMFileName_test n =
     (endsWith (toLowerCase n) ''.zim'' \<or> endsWith (toLowerCase n) ''.zimaa'')"
proof -
  have "regexpZIMFileName_test n =
      (\<exists>x. suffix x n \<and> (toLowerCase x = ''.zim'' \<or> toLowerCase x = ''.zimaa''))"
    by (simp only: regexpZIMFileName_test_suffix regexpZIMFileName_at_lower)
  also have "\<dots> = ((\<exists>x. suffix x n \<and> toLowerCase x = ''.zim'')
      \<or> (\<exists>x. suffix x n \<and> toLowerCase x = ''.zimaa''))"
    by (simp only: conj_disj_distribL ex_disj_distrib)
  also have "\<dots> = (suffix ''.zim'' (toLowerCase n) \<or> suffix ''.zimaa'' (toLowerCase n))"
    by (simp only: toLowerCase_def suffix_map_iff)
  finally show ?thesis by (simp only: endsWith_suffix)
qed

text \<open>
  The cursor scan emits one entry for every file that is a marker or whose lower-cased
  name ends in \<open>.zim\<close> or \<open>.zimaa\<close>, none for any other file, and resolves with the
  entries in the order of the enumeration.
\<close>

lemma onsuccess_file_count:
  "length (onsuccess_file (File n) directories) =
     length directories +
     (if endsWith n ''titles.idx''
         \<or> endsWith (toLowerCase n) ''.zim'' \<or> endsWith (toLowerCase n) ''.zimaa''
      then 1 else 0)"
  by (simp add: onsuccess_file_def Let_def regexpZIMFileName_test_lower)

lemma onsuccess_file_append:
  "onsuccess_file file directories = directories @ onsuccess_file file []"
  by (simp add: onsuccess_file_def Let_def)

lemma cursor_events_resolves:
  "cursor_events (map Result files @ NoResult # rest) directories =
     Resolved (directories @ concat (map (\<lambda>file. onsuccess_file file []) files))"
proof (induction files arbitrary: directories)
  case Nil
  then show ?case by simp
next
  case (Cons f files)
  have "cursor_events (map Result (f # files) @ NoResult # rest) directories =
      Resolved (onsuccess_file f directories
        @ concat (map (\<lambda>file. onsuccess_file file []) files))"
    using Cons.IH[of "onsuccess_file f directories"] by simp
  also have "onsuccess_file f directories = directories @ onsuccess_file f []"
    by (rule onsuccess_file_append)
  finally show ?case by simp
qed

text \<open>
  C1: the tree scan misses archive files that the cursor scan finds. On a root directory
  with the five files \<open>titles.idx\<close>, \<open>wiki.zim\<close>, \<open>WIKI.ZIM\<close>, \<open>wiki.zimaa\<close> and
  \<open>notes.txt\<close> the tree scan resolves with two entries, for the marker and for
  \<open>wiki.zim\<close>; the cursor scan over the same names resolves with four.
\<close>

theorem tree_scan_misses_archives:
  "StoragePhoneGap_scanForArchives html5_FileError five_files_tree
     = Resolved [''/sdcard/'', ''/sdcard/wiki.zim'']
   \<and> StorageFirefoxOS_scanForArchives five_files_cursor
     = Resolved [''/'', ''wiki.zim'', ''WIKI.ZIM'', ''wiki.zimaa'']"
  by (simp add: StoragePhoneGap_scanForArchives_def five_files_tree_def iteration_success
      iteration_empty dirReaderSuccess_def isDirectory_def endsWith_def
      StorageFirefoxOS_scanForArchives_def five_files_cursor_def onsuccess_file_def
      letter_def)

text \<open>
  C2: the test of the tree scan is the exact suffix \<open>.zim\<close>. It accepts \<open>archive.zim\<close>
  and rejects \<open>ARCHIVE.ZIM\<close> and \<open>archive.zimaa\<close>, so the loop over the entries of a
  directory emits nothing for them; the regular expression of the cursor scan accepts
  all three.
\<close>

theorem tree_scan_test_case_sensitive:
  "endsWith ''archive.zim'' ''.zim''
   \<and> \<not> endsWith ''ARCHIVE.ZIM'' ''.zim''
   \<and> \<not> endsWith ''archive.zimaa'' ''.zim''
   \<and> regexpZIMFileName_test ''archive.zim''
   \<and> regexpZIMFileName_test ''ARCHIVE.ZIM''
   \<and> regexpZIMFileName_test ''archive.zimaa''
   \<and> entries_loop (DirectoryEntry [] ''/sdcard'' (Inr []))
        [FileEntry ''archive.zim'' ''/sdcard/archive.zim''] ([], [])
       = ([], [''/sdcard/archive.zim''])
   \<and> entries_loop (DirectoryEntry [] ''/sdcard'' (Inr []))
        [FileEntry ''ARCHIVE.ZIM'' ''/sdcard/ARCHIVE.ZIM''] ([], [])
       = ([], [])
   \<and> entries_loop (DirectoryEntry [] ''/sdcard'' (Inr []))
        [FileEntry ''archive.zimaa'' ''/sdcard/archive.zimaa''] ([], [])
       = ([], [])
   \<and> onsuccess_file (File ''ARCHIVE.ZIM'') [] = [''ARCHIVE.ZIM'']
   \<and> onsuccess_file (File ''archive.zimaa'') [] = [''archive.zimaa'']"
  by (simp add: endsWith_def isDirectory_def onsuccess_file_def letter_def)

subsection \<open>The tree scan settles\<close>

text \<open>
  The tree scan from a stack of directories always settles, and it resolves when no
  listing below the stack fails.
\<close>

lemma iteration_resolves:
  assumes "\<forall>d\<in>set stack. isDirectory d" and "\<forall>d\<in>set stack. \<not> listing_fails d"
  shows "\<exists>found. iteration fe stack directories = Resolved found"
  using assms
proof (induction fe stack directories rule: iteration.induct)
  case (1 fe stack directories)
  show ?case
  proof (cases "stack = []")
    case True
    then show ?thesis by (simp add: iteration_empty)
  next
    case ne: False
    then have "isDirectory (last stack)" and nf: "\<not> listing_fails (last stack)"
      using "1.prems" by simp_all
    then obtain n p listing where top: "last stack = DirectoryEntry n p listing"
      by (cases "last stack") (auto simp: isDirectory_def)
    then obtain entries where listing: "listing = Inr entries"
      using nf by (cases listing) simp_all
    define stack' where "stack' = fst (dirReaderSuccess entries (stack, directories))"
    define directories' where "directories' = snd (dirReaderSuccess entries (stack, directories))"
    have st: "stack' = butlast stack @ filter isDirectory entries"
      unfolding stack'_def by (rule dirReaderSuccess_stack)
    have step: "iteration fe stack directories = iteration fe stack' directories'"
      unfolding stack'_def directories'_def using ne top unfolding listing
      by (rule iteration_success)
    have below: "\<forall>e\<in>set entries. \<not> listing_fails e"
      using nf top listing by (simp add: list_ex_iff)
    have "\<exists>found. iteration fe stack' directories' = Resolved found"
    proof (rule "1.IH"[of n p listing entries stack' directories'])
      show "length stack \<noteq> 0" using ne by simp
      show "last stack = DirectoryEntry n p listing" by (rule top)
      show "listing = Inr entries" by (rule listing)
      show "(stack', directories') = dirReaderSuccess entries (stack, directories)"
        by (simp add: stack'_def directories'_def)
      show "\<forall>d\<in>set stack'. isDirectory d"
        using "1.prems"(1) st by (auto dest: in_set_butlastD)
      show "\<forall>d\<in>set stack'. \<not> listing_fails d"
        using "1.prems"(2) below st by (auto dest: in_set_butlastD)
    qed
    then show ?thesis using step by simp
  qed
qed

lemma iteration_settles:
  assumes "\<forall>d\<in>set stack. isDirectory d"
  shows "iteration fe stack directories \<noteq> Pending"
proof (cases "\<exists>d\<in>set stack. listing_fails d")
  case True
  then show ?thesis using assms iteration_rejects[of stack fe directories] by auto
next
  case False
  then show ?thesis using assms iteration_resolves[of stack fe directories] by auto
qed

subsection \<open>The tree scan and the directory of a marker\<close>



















subsection \<open>The scan over all storages\<close>

lemma settle_settled:
  "st_settled st \<Longrightarrow>
   st_settled (settle p st) \<and> st_effects (settle p st) = st_effects st"
  by (cases "snd p") (simp_all add: settle_def Let_def)

lemma settle_all_settled:
  "st_settled st \<Longrightarrow> st_effects (settle_all promises arrivals st) = st_effects st"
proof (induction arrivals arbitrary: st)
  case Nil
  then show ?case by simp
next
  case (Cons i arrivals)
  show ?case
  proof (cases "i < length promises")
    case True
    have "st_settled (settle (promises ! i) st)"
      and "st_effects (settle (promises ! i) st) = st_effects st"
      using Cons.prems settle_settled by blast+
    then show ?thesis using True Cons.IH[of "settle (promises ! i) st"] by simp
  next
    case False
    then show ?thesis using Cons by simp
  qed
qed

text \<open>A promise without a \<open>promise\<close> method changes nothing but \<open>directories\<close>.\<close>

lemma settle_not_waited:
  assumes "\<not> has_promise_method (fst p)"
  shows "st_settled (settle p st) = st_settled st"
    and "st_effects (settle p st) = st_effects st"
    and "st_remaining (settle p st) = st_remaining st"
  using assms by (cases "snd p"; simp add: settle_def Let_def)+

lemma settle_all_first_rejection:
  assumes "\<not> st_settled st" and "st_effects st = []"
    and "int (length (waited_resolved promises arrivals)) < st_remaining st"
  shows "st_effects (settle_all promises arrivals st) =
     (case first_rejection promises arrivals of
        None \<Rightarrow> []
      | Some error \<Rightarrow> [Alert error, CallbackFunction None])"
  using assms
proof (induction arrivals arbitrary: st)
  case Nil
  then show ?case by simp
next
  case (Cons i arrivals)
  show ?case
  proof (cases "i < length promises")
    case False
    then show ?thesis using Cons by (simp add: waited_resolved_def)
  next
    case True
    let ?st = "settle (promises ! i) st"
    have step: "settle_all promises (i # arrivals) st = settle_all promises arrivals ?st"
      using True by simp
    show ?thesis
    proof (cases "has_promise_method (fst (promises ! i))")
      case False
      have "\<not> st_settled ?st" and "st_effects ?st = []"
        and "int (length (waited_resolved promises arrivals)) < st_remaining ?st"
        using Cons.prems False settle_not_waited[of "promises ! i" st]
        by (simp_all add: waited_resolved_def)
      then have "st_effects (settle_all promises arrivals ?st) =
         (case first_rejection promises arrivals of
            None \<Rightarrow> []
          | Some error \<Rightarrow> [Alert error, CallbackFunction None])"
        by (rule Cons.IH)
      then show ?thesis unfolding step using False by simp
    next
      case waited: True
      show ?thesis
      proof (cases "snd (promises ! i)")
        case (Resolved dirs)
        have rem: "int (length (waited_resolved promises arrivals)) < st_remaining st - 1"
          using Cons.prems(3) True waited Resolved by (simp add: waited_resolved_def)
        then have "st_remaining st - 1 \<noteq> 0" by arith
        then have st: "?st = st\<lparr>st_directories := st_directories st @ dirs,
                              st_remaining := st_remaining st - 1\<rparr>"
          using Resolved waited by (simp add: settle_def Let_def)
        have "st_effects (settle_all promises arrivals ?st) =
           (case first_rejection promises arrivals of
              None \<Rightarrow> []
            | Some error \<Rightarrow> [Alert error, CallbackFunction None])"
        proof (rule Cons.IH)
          show "\<not> st_settled ?st" using Cons.prems(1) by (simp add: st)
          show "st_effects ?st = []" using Cons.prems(2) by (simp add: st)
          show "int (length (waited_resolved promises arrivals)) < st_remaining ?st"
            using rem by (simp add: st)
        qed
        then show ?thesis unfolding step using True waited Resolved by simp
      next
        case (Rejected error)
        have "st_settled ?st" and "st_effects ?st = [Alert error, CallbackFunction None]"
          using Rejected waited Cons.prems(1,2) by (simp_all add: settle_def)
        then have "st_effects (settle_all promises arrivals ?st)
                   = [Alert error, CallbackFunction None]"
          using settle_all_settled[of ?st promises arrivals] by simp
        then show ?thesis unfolding step using True waited Rejected by simp
      next
        case Pending
        then have same: "?st = st" by (simp add: settle_def)
        have "int (length (waited_resolved promises arrivals)) < st_remaining st"
          using Cons.prems(3) True Pending by (simp add: waited_resolved_def)
        then have "st_effects (settle_all promises arrivals st) =
           (case first_rejection promises arrivals of
              None \<Rightarrow> []
            | Some error \<Rightarrow> [Alert error, CallbackFunction None])"
          using Cons.prems(1,2) by (intro Cons.IH)
        then show ?thesis unfolding step same using True Pending by simp
      qed
    qed
  qed
qed

lemma waited_resolved_bound:
  assumes "distinct arrivals" and "k < length promises"
    and "has_promise_method (fst (promises ! k))" and "\<not> is_resolved (snd (promises ! k))"
  shows "length (waited_resolved promises arrivals)
         < length (filter (\<lambda>p. has_promise_method (fst p)) promises)"
proof -
  let ?r = "waited_resolved promises arrivals"
  let ?W = "{i. i < length promises \<and> has_promise_method (fst (promises ! i))}"
  have fin: "finite ?W" by simp
  have d: "distinct ?r" using assms(1) by (simp add: waited_resolved_def)
  have "set ?r \<subseteq> ?W - {k}"
    using assms(4) by (auto simp: waited_resolved_def)
  then have "card (set ?r) \<le> card (?W - {k})"
    using fin by (intro card_mono) auto
  also have "\<dots> < card ?W"
    using fin assms(2,3) by (intro card_Diff1_less) simp_all
  also have "\<dots> = length (filter (\<lambda>p. has_promise_method (fst p)) promises)"
    by (simp only: length_filter_conv_card)
  finally show ?thesis using d by (simp add: distinct_card)
qed

lemma first_rejection_in:
  assumes "k \<in> set arrivals" and "k < length promises"
    and "has_promise_method (fst (promises ! k))" and "snd (promises ! k) = Rejected e"
  shows "\<exists>e'. first_rejection promises arrivals = Some e'"
  using assms(1)
proof (induction arrivals)
  case Nil
  then show ?case by simp
next
  case (Cons i arrivals)
  show ?case
  proof (cases "i = k")
    case True
    then show ?thesis using assms(2,3,4) by simp
  next
    case False
    then have "\<exists>e'. first_rejection promises arrivals = Some e'" using Cons by simp
    then show ?thesis by (cases "snd (promises ! i)") auto
  qed
qed

lemma when_promises_rejection:
  assumes "distinct arrivals" and "k < length promises"
    and "has_promise_method (fst (promises ! k))" and "snd (promises ! k) = Rejected e"
  shows "when_promises promises arrivals =
     (case first_rejection promises arrivals of
        None \<Rightarrow> []
      | Some error \<Rightarrow> [Alert error, CallbackFunction None])"
proof -
  let ?n = "length (filter (\<lambda>p. has_promise_method (fst p)) promises)"
  have "\<not> is_resolved (snd (promises ! k))" using assms(4) by simp
  then have less: "length (waited_resolved promises arrivals) < ?n"
    using assms(1,2,3) waited_resolved_bound by blast
  then have "?n \<noteq> 0" by arith
  then have start: "when_start promises =
      \<lparr>st_directories = [], st_remaining = int ?n, st_settled = False, st_effects = []\<rparr>"
    by (simp add: when_start_def Let_def)
  show ?thesis
    unfolding when_promises_def
  proof (rule settle_all_first_rejection)
    show "\<not> st_settled (when_start promises)" by (simp add: start)
    show "st_effects (when_start promises) = []" by (simp add: start)
    show "int (length (waited_resolved promises arrivals)) < st_remaining (when_start promises)"
      using less by (simp add: start)
  qed
qed

text \<open>
  For a promise that \<open>jQuery.when\<close> waits on, as the one of a \<open>StorageFirefoxOS\<close>, the
  scan is all-or-nothing: when it rejects, \<open>callbackFunction\<close> is never called with a
  list, in whatever order the promises settle, and once it has settled the effects are
  the alert for the first rejection followed by \<open>callbackFunction(null)\<close>.
\<close>

lemma waited_rejection_all_or_nothing:
  assumes "distinct arrivals" and "k < length promises"
    and "has_promise_method (fst (promises ! k))" and "snd (promises ! k) = Rejected e"
  shows "CallbackFunction (Some dirs) \<notin> set (when_promises promises arrivals)"
    and "k \<in> set arrivals \<Longrightarrow>
          \<exists>e'. first_rejection promises arrivals = Some e'
             \<and> when_promises promises arrivals = [Alert e', CallbackFunction None]"
proof -
  have eq: "when_promises promises arrivals =
     (case first_rejection promises arrivals of
        None \<Rightarrow> []
      | Some error \<Rightarrow> [Alert error, CallbackFunction None])"
    using assms by (rule when_promises_rejection)
  show "CallbackFunction (Some dirs) \<notin> set (when_promises promises arrivals)"
    by (cases "first_rejection promises arrivals") (simp_all add: eq)
  show "\<exists>e'. first_rejection promises arrivals = Some e'
             \<and> when_promises promises arrivals = [Alert e', CallbackFunction None]"
    if ka: "k \<in> set arrivals"
  proof -
    obtain e' where "first_rejection promises arrivals = Some e'"
      using first_rejection_in[OF ka assms(2,3,4)] by blast
    then show ?thesis by (simp add: eq)
  qed
qed

lemma slash_a_scan: "StorageFirefoxOS_scanForArchives slash_a = Resolved [''/a/'']"
  by (simp add: StorageFirefoxOS_scanForArchives_def slash_a_def onsuccess_file_def
      endsWith_def substring0_def Let_def)

lemma slash_b_scan: "StorageFirefoxOS_scanForArchives slash_b = Resolved [''/b/'']"
  by (simp add: StorageFirefoxOS_scanForArchives_def slash_b_def onsuccess_file_def
      endsWith_def substring0_def Let_def)

lemma mismatch_scan:
  "StorageFirefoxOS_scanForArchives mismatch_storage = Rejected (DOMError ''TypeMismatchError'')"
  by (simp add: StorageFirefoxOS_scanForArchives_def mismatch_storage_def)

text \<open>
  C3: the rejection of a \<open>StoragePhoneGap\<close> scan does not fail the aggregate. With the
  storages \<open>[A, B]\<close>, \<open>A\<close> a \<open>StorageFirefoxOS\<close> whose scan resolves with \<open>["/a/"]\<close> and \<open>B\<close>
  a \<open>StoragePhoneGap\<close> whose scan rejects, \<open>callbackFunction\<close> is called with the partial
  list \<open>["/a/"]\<close> and there is no alert, in either order of settling; with \<open>B\<close> alone
  \<open>callbackFunction\<close> is called with the empty list. When the rejecting storage is a
  \<open>StorageFirefoxOS\<close>, the alert is shown and \<open>callbackFunction(null)\<close> is called.
\<close>

theorem q_rejection_delivers_partial_list:
  "storage_scanForArchives html5_FileError (StorageFirefoxOS slash_a)
     = (JQuery, Resolved [''/a/''])
   \<and> storage_scanForArchives html5_FileError (StoragePhoneGap third_listing_fails)
     = (Q, Rejected (Inr ''NOT_FOUND_ERR''))
   \<and> scanForArchives html5_FileError
        [StorageFirefoxOS slash_a, StoragePhoneGap third_listing_fails] [0, 1]
     = [CallbackFunction (Some [''/a/''])]
   \<and> scanForArchives html5_FileError
        [StorageFirefoxOS slash_a, StoragePhoneGap third_listing_fails] [1, 0]
     = [CallbackFunction (Some [''/a/''])]
   \<and> scanForArchives html5_FileError [StoragePhoneGap third_listing_fails] [0]
     = [CallbackFunction (Some [])]
   \<and> scanForArchives html5_FileError
        [StorageFirefoxOS slash_a, StorageFirefoxOS mismatch_storage] [0, 1]
     = [Alert (Inl (DOMError ''TypeMismatchError'')), CallbackFunction None]"
  by (simp add: storage_scanForArchives_def slash_a_scan third_listing_scan mismatch_scan
      scanForArchives_def when_promises_def when_start_def settle_def)

subsection \<open>The order of the aggregate list\<close>

lemma settle_all_resolved:
  assumes "\<not> st_settled st" and "st_effects st = []"
    and "\<forall>i\<in>set arrivals. i < length promises \<and> fst (promises ! i) = JQuery
           \<and> is_resolved (snd (promises ! i))"
    and "st_remaining st = int (length arrivals)" and "arrivals \<noteq> []"
  shows "st_effects (settle_all promises arrivals st) =
     [CallbackFunction (Some (st_directories st
        @ concat (map (\<lambda>i. resolved_value (snd (promises ! i))) arrivals)))]"
  using assms
proof (induction arrivals arbitrary: st)
  case Nil
  then show ?case by simp
next
  case (Cons i arrivals)
  from Cons.prems(3) have i: "i < length promises" and "fst (promises ! i) = JQuery"
    and "is_resolved (snd (promises ! i))"
    by simp_all
  then obtain dirs where res: "promises ! i = (JQuery, Resolved dirs)"
    by (cases "promises ! i"; cases "snd (promises ! i)") simp_all
  let ?st = "settle (JQuery, Resolved dirs) st"
  have step: "settle_all promises (i # arrivals) st = settle_all promises arrivals ?st"
    using i res by simp
  have vals: "concat (map (\<lambda>i. resolved_value (snd (promises ! i))) (i # arrivals))
      = dirs @ concat (map (\<lambda>i. resolved_value (snd (promises ! i))) arrivals)"
    using res by simp
  show ?case
  proof (cases "arrivals = []")
    case True
    then have "st_remaining st - 1 = 0" using Cons.prems(4) by simp
    then have "st_effects ?st = [CallbackFunction (Some (st_directories st @ dirs))]"
      using Cons.prems(1,2) by (simp add: settle_def Let_def)
    then show ?thesis unfolding step vals using True by simp
  next
    case False
    then have "st_remaining st - 1 \<noteq> 0" using Cons.prems(4) by simp
    then have st: "?st = st\<lparr>st_directories := st_directories st @ dirs,
                          st_remaining := st_remaining st - 1\<rparr>"
      by (simp add: settle_def Let_def)
    have "st_effects (settle_all promises arrivals ?st) =
       [CallbackFunction (Some (st_directories ?st
          @ concat (map (\<lambda>i. resolved_value (snd (promises ! i))) arrivals)))]"
    proof (rule Cons.IH)
      show "\<not> st_settled ?st" using Cons.prems(1) by (simp add: st)
      show "st_effects ?st = []" using Cons.prems(2) by (simp add: st)
      show "\<forall>i\<in>set arrivals. i < length promises \<and> fst (promises ! i) = JQuery
              \<and> is_resolved (snd (promises ! i))"
        using Cons.prems(3) by simp
      show "st_remaining ?st = int (length arrivals)" using Cons.prems(4) by (simp add: st)
      show "arrivals \<noteq> []" by (rule False)
    qed
    then show ?thesis unfolding step vals by (simp add: st)
  qed
qed

lemma filter_all_waited:
  assumes "\<forall>i<length promises. fst (promises ! i) = JQuery"
  shows "filter (\<lambda>p. has_promise_method (fst p)) promises = promises"
proof -
  have "has_promise_method (fst p)" if mem: "p \<in> set promises" for p
  proof -
    obtain i where "i < length promises" "promises ! i = p"
      using mem by (auto simp: in_set_conv_nth)
    then have "fst p = JQuery" using assms by auto
    then show ?thesis by simp
  qed
  then show ?thesis by simp
qed

lemma when_promises_resolved:
  assumes "\<forall>i<length promises. fst (promises ! i) = JQuery \<and> is_resolved (snd (promises ! i))"
    and "distinct arrivals" and "set arrivals = {..<length promises}"
  shows "when_promises promises arrivals =
     [CallbackFunction
        (Some (concat (map (\<lambda>i. resolved_value (snd (promises ! i))) arrivals)))]"
proof (cases "promises = []")
  case True
  then have "arrivals = []" using assms(3) by simp
  then show ?thesis using True by (simp add: when_promises_def when_start_def)
next
  case False
  have len: "length arrivals = length promises"
    using assms(2,3) distinct_card[of arrivals] by simp
  then have ne: "arrivals \<noteq> []" using False by auto
  have all: "\<forall>i\<in>set arrivals. i < length promises \<and> fst (promises ! i) = JQuery
      \<and> is_resolved (snd (promises ! i))"
    using assms(1,3) by simp
  have "filter (\<lambda>p. has_promise_method (fst p)) promises = promises"
    using assms(1) by (intro filter_all_waited) simp
  then have start: "when_start promises =
      \<lparr>st_directories = [], st_remaining = int (length promises), st_settled = False,
       st_effects = []\<rparr>"
    using False by (simp add: when_start_def Let_def)
  have "st_effects (settle_all promises arrivals (when_start promises)) =
     [CallbackFunction (Some (st_directories (when_start promises)
        @ concat (map (\<lambda>i. resolved_value (snd (promises ! i))) arrivals)))]"
  proof (rule settle_all_resolved)
    show "\<not> st_settled (when_start promises)" by (simp add: start)
    show "st_effects (when_start promises) = []" by (simp add: start)
    show "\<forall>i\<in>set arrivals. i < length promises \<and> fst (promises ! i) = JQuery
        \<and> is_resolved (snd (promises ! i))"
      by (rule all)
    show "st_remaining (when_start promises) = int (length arrivals)"
      by (simp add: start len)
    show "arrivals \<noteq> []" by (rule ne)
  qed
  then show ?thesis by (simp add: when_promises_def start)
qed

lemma map_resolved_value_upt:
  "map (\<lambda>i. resolved_value (snd (promises ! i))) [0..<length promises]
   = map (\<lambda>p. resolved_value (snd p)) promises"
proof -
  have "map (\<lambda>p. resolved_value (snd p)) (map ((!) promises) [0..<length promises])
        = map (\<lambda>p. resolved_value (snd p)) promises"
    by (simp only: map_nth)
  then show ?thesis by (simp only: map_map comp_def)
qed

lemma firefox_promise:
  "is_StorageFirefoxOS storage \<Longrightarrow> fst (storage_scanForArchives fe storage) = JQuery"
  by (cases storage) (simp_all add: storage_scanForArchives_def)

text \<open>
  C4, as stated, fails when the promises settle in another order than the list of
  storages: each storage's list is merged into \<open>directories\<close> when its own promise
  resolves. With two \<open>StorageFirefoxOS\<close> storages whose scans resolve with \<open>["/a/"]\<close> and
  \<open>["/b/"]\<close>, the second settling first, the entry of the second storage comes before
  the entry of the first.
\<close>

theorem arrival_order_counterexample:
  "scanForArchives html5_FileError [StorageFirefoxOS slash_a, StorageFirefoxOS slash_b] [1, 0]
     = [CallbackFunction (Some [''/b/'', ''/a/''])]
   \<and> map (\<lambda>s. resolved_value (snd (storage_scanForArchives html5_FileError s)))
        [StorageFirefoxOS slash_a, StorageFirefoxOS slash_b]
     = [[''/a/''], [''/b/'']]
   \<and> scanForArchives html5_FileError [StorageFirefoxOS slash_a, StorageFirefoxOS slash_b] [1, 0]
     \<noteq> [CallbackFunction (Some [''/a/'', ''/b/''])]"
  by (simp add: scanForArchives_def storage_scanForArchives_def slash_a_scan slash_b_scan
      when_promises_def when_start_def settle_def)

text \<open>
  C4, amended: for every list of \<open>StorageFirefoxOS\<close> volumes, the volumes whose scan
  promise \<open>jQuery.when\<close> waits on, when every scan resolves and every promise has
  settled, the list handed to \<open>callbackFunction\<close> is the concatenation of the volumes'
  lists in the order in which their promises settled, each volume's own entries kept
  together and in that volume's order. When the promises settle in the order of the
  list of volumes, this is the order of the list of volumes. The same holds for any
  promises that \<open>jQuery.when\<close> waits on.
\<close>

theorem aggregate_in_arrival_order:
  "((\<forall>i<length storages. is_StorageFirefoxOS (storages ! i)
        \<and> is_resolved (snd (storage_scanForArchives fileError (storages ! i))))
      \<and> distinct arrivals \<and> set arrivals = {..<length storages} \<longrightarrow>
      scanForArchives fileError storages arrivals =
        [CallbackFunction
           (Some (concat (map
              (\<lambda>i. resolved_value (snd (storage_scanForArchives fileError (storages ! i))))
              arrivals)))])
   \<and> ((\<forall>i<length storages. is_StorageFirefoxOS (storages ! i)
        \<and> is_resolved (snd (storage_scanForArchives fileError (storages ! i)))) \<longrightarrow>
      scanForArchives fileError storages [0..<length storages] =
        [CallbackFunction
           (Some (concat (map
              (\<lambda>s. resolved_value (snd (storage_scanForArchives fileError s))) storages)))])
   \<and> ((\<forall>i<length promises. fst (promises ! i) = JQuery \<and> is_resolved (snd (promises ! i)))
      \<and> distinct arrivals \<and> set arrivals = {..<length promises} \<longrightarrow>
      when_promises promises arrivals =
        [CallbackFunction
           (Some (concat (map (\<lambda>i. resolved_value (snd (promises ! i))) arrivals)))])"
proof (intro conjI impI)
  let ?ps = "map (storage_scanForArchives fileError) storages"
  assume a: "(\<forall>i<length storages. is_StorageFirefoxOS (storages ! i)
        \<and> is_resolved (snd (storage_scanForArchives fileError (storages ! i))))
      \<and> distinct arrivals \<and> set arrivals = {..<length storages}"
  then have all: "\<forall>i<length ?ps. fst (?ps ! i) = JQuery \<and> is_resolved (snd (?ps ! i))"
    by (simp add: firefox_promise)
  have "when_promises ?ps arrivals =
     [CallbackFunction (Some (concat (map (\<lambda>i. resolved_value (snd (?ps ! i))) arrivals)))]"
    using all a by (intro when_promises_resolved) simp_all
  moreover have "map (\<lambda>i. resolved_value (snd (?ps ! i))) arrivals
      = map (\<lambda>i. resolved_value (snd (storage_scanForArchives fileError (storages ! i))))
          arrivals"
    using a by (intro map_cong) auto
  ultimately show "scanForArchives fileError storages arrivals =
        [CallbackFunction
           (Some (concat (map
              (\<lambda>i. resolved_value (snd (storage_scanForArchives fileError (storages ! i))))
              arrivals)))]"
    by (simp only: scanForArchives_def)
next
  let ?ps = "map (storage_scanForArchives fileError) storages"
  assume a: "\<forall>i<length storages. is_StorageFirefoxOS (storages ! i)
        \<and> is_resolved (snd (storage_scanForArchives fileError (storages ! i)))"
  then have all: "\<forall>i<length ?ps. fst (?ps ! i) = JQuery \<and> is_resolved (snd (?ps ! i))"
    by (simp add: firefox_promise)
  have "set [0..<length ?ps] = {..<length ?ps}" by auto
  then have "when_promises ?ps [0..<length ?ps] =
     [CallbackFunction (Some (concat (map (\<lambda>i. resolved_value (snd (?ps ! i)))
        [0..<length ?ps])))]"
    using all by (intro when_promises_resolved) simp_all
  then have "when_promises ?ps [0..<length ?ps] =
     [CallbackFunction (Some (concat (map (\<lambda>p. resolved_value (snd p)) ?ps)))]"
    unfolding map_resolved_value_upt .
  then show "scanForArchives fileError storages [0..<length storages] =
        [CallbackFunction
           (Some (concat (map
              (\<lambda>s. resolved_value (snd (storage_scanForArchives fileError s))) storages)))]"
    by (simp add: scanForArchives_def comp_def)
next
  assume "(\<forall>i<length promises. fst (promises ! i) = JQuery \<and> is_resolved (snd (promises ! i)))
      \<and> distinct arrivals \<and> set arrivals = {..<length promises}"
  then show "when_promises promises arrivals =
        [CallbackFunction
           (Some (concat (map (\<lambda>i. resolved_value (snd (promises ! i))) arrivals)))]"
    using when_promises_resolved[of promises arrivals] by simp
qed

theorem aggregate_in_arrival_order_witness:
  "is_StorageFirefoxOS (StorageFirefoxOS two_markers)
   \<and> is_StorageFirefoxOS (StorageFirefoxOS slash_b)
   \<and> storage_scanForArchives html5_FileError (StorageFirefoxOS two_markers)
       = (JQuery, Resolved [''/'', ''subdir/''])
   \<and> storage_scanForArchives html5_FileError (StorageFirefoxOS slash_b)
       = (JQuery, Resolved [''/b/''])
   \<and> distinct [1, 0 :: nat] \<and> set [1, 0 :: nat] = {..<2}
   \<and> scanForArchives html5_FileError
        [StorageFirefoxOS two_markers, StorageFirefoxOS slash_b] [1, 0]
      = [CallbackFunction (Some [''/b/'', ''/'', ''subdir/''])]
   \<and> scanForArchives html5_FileError
        [StorageFirefoxOS two_markers, StorageFirefoxOS slash_b] [0, 1]
      = [CallbackFunction (Some [''/'', ''subdir/'', ''/b/''])]
   \<and> when_promises
        [(JQuery, Resolved [''/'', ''subdir/'']),
         (JQuery, Resolved [''/b/'']) :: library \<times> (string, string list) promise] [1, 0]
      = [CallbackFunction (Some [''/b/'', ''/'', ''subdir/''])]"
proof -
  let ?s = "[StorageFirefoxOS two_markers, StorageFirefoxOS slash_b]"
  let ?p = "[(JQuery, Resolved [''/'', ''subdir/'']),
             (JQuery, Resolved [''/b/'']) :: library \<times> (string, string list) promise]"
  have two: "StorageFirefoxOS_scanForArchives two_markers = Resolved [''/'', ''subdir/'']"
    by (simp add: StorageFirefoxOS_scanForArchives_def two_markers_def onsuccess_file_def
        endsWith_def substring0_def Let_def)
  have scans: "storage_scanForArchives html5_FileError (StorageFirefoxOS two_markers)
       = (JQuery, Resolved [''/'', ''subdir/''])"
    "storage_scanForArchives html5_FileError (StorageFirefoxOS slash_b)
       = (JQuery, Resolved [''/b/''])"
    by (simp_all add: storage_scanForArchives_def two slash_b_scan)
  have all: "\<forall>i<length ?s. is_StorageFirefoxOS (?s ! i)
      \<and> is_resolved (snd (storage_scanForArchives html5_FileError (?s ! i)))"
    by (simp add: less_Suc_eq scans)
  have allp: "\<forall>i<length ?p. fst (?p ! i) = JQuery \<and> is_resolved (snd (?p ! i))"
    by (simp add: less_Suc_eq)
  have s: "set [1, 0 :: nat] = {..<length ?s}" "set [1, 0 :: nat] = {..<length ?p}" by auto
  have d: "distinct [1, 0 :: nat]" by simp
  show ?thesis
    using aggregate_in_arrival_order [of ?s html5_FileError "[1, 0]" ?p] all allp s d scans
    by simp
qed

end
